theory Spec2Isabelle
  imports Complex_Main "HOL-Library.Multiset" "HOL-Library.Sublist"
begin

section \<open>Data model (types.ts)\<close>

text \<open>
  Strings are lists of 8-bit characters; the embedding is exact on ASCII text.  Numbers
  that the program only ever uses as integers (levels, epoch milliseconds, array
  lengths) are modelled as \<open>int\<close>.  An optional field \<open>f?: T\<close> is a \<open>T option\<close>,
  with \<open>None\<close> standing for \<open>undefined\<close>.
\<close>

record Meaning =
  partOfSpeech :: string
  vietnamese :: string
  definition_text :: string

record Example =
  sentence :: string
  translation :: string

record WordData =
  card_id :: string
  word :: string
  phonetic :: string
  mnemonic :: "string option"
  meanings :: "Meaning list"
  examples :: "Example list"
  synonyms :: "string list option"
  antonyms :: "string list option"
  createdAt :: int
  srsLevel :: "int option"
  nextReview :: "int option"

section \<open>JavaScript primitives used by the program\<close>

text \<open>\<open>String.prototype.toLowerCase\<close> on ASCII: the letters A..Z move to a..z.\<close>

definition lower_char :: "char \<Rightarrow> char" where
  "lower_char c =
     (case map_of (zip ''ABCDEFGHIJKLMNOPQRSTUVWXYZ'' ''abcdefghijklmnopqrstuvwxyz'') c of
        None \<Rightarrow> c | Some l \<Rightarrow> l)"

definition toLowerCase :: "string \<Rightarrow> string" where
  "toLowerCase s = map lower_char s"

text \<open>Reading \<open>a[i]\<close>: outside \<open>0 .. length - 1\<close> JavaScript yields \<open>undefined\<close>.\<close>

definition js_index :: "'a list \<Rightarrow> int \<Rightarrow> 'a option" where
  "js_index a i = (if 0 \<le> i \<and> i < int (length a) then Some (a ! nat i) else None)"

text \<open>\<open>x || d\<close> on a number that may be \<open>undefined\<close>: both \<open>undefined\<close> and \<open>0\<close> are falsy.\<close>

definition num_or :: "int option \<Rightarrow> int \<Rightarrow> int" where
  "num_or x d = (case x of None \<Rightarrow> d | Some v \<Rightarrow> if v = 0 then d else v)"

text \<open>\<open>!x\<close> on a number that may be \<open>undefined\<close>.\<close>

definition num_falsy :: "int option \<Rightarrow> bool" where
  "num_falsy x = (case x of None \<Rightarrow> True | Some v \<Rightarrow> v = 0)"

section \<open>Card store and SRS scheduler (App.tsx)\<close>

definition SRS_INTERVALS :: "int list" where
  "SRS_INTERVALS = [1, 3, 7, 14, 30]"

text \<open>
  Lines 260--275 of \<open>handleSRSRating\<close>: the new level and the next review date, computed
  from the card that was handed to the callback and from \<open>now = Date.now()\<close>.
\<close>

definition srs_outcome :: "int \<Rightarrow> WordData \<Rightarrow> bool \<Rightarrow> int \<times> int" where
  "srs_outcome now card' success =
     (let currentLevel = num_or (srsLevel card') 0 in
      if success then
        (let newLevel = min (currentLevel + 1) (int (length SRS_INTERVALS));
             daysToAdd = num_or (js_index SRS_INTERVALS (newLevel - 1)) 1
         in (newLevel, now + daysToAdd * 24 * 60 * 60 * 1000))
      else (1, now + 1 * 24 * 60 * 60 * 1000))"

text \<open>
  Lines 277--283: \<open>setSavedCards(prev => prev.map(...))\<close>.  The store is passed in and
  the updated store is returned.
\<close>

definition handleSRSRating :: "int \<Rightarrow> WordData \<Rightarrow> bool \<Rightarrow> WordData list \<Rightarrow> WordData list" where
  "handleSRSRating now card' success savedCards =
     (let (newLevel, nextReviewDate) = srs_outcome now card' success in
      map (\<lambda>c. if card_id c = card_id card'
                then c\<lparr>srsLevel := Some newLevel, nextReview := Some nextReviewDate\<rparr>
                else c) savedCards)"

definition getDueCards :: "int \<Rightarrow> WordData list \<Rightarrow> WordData list" where
  "getDueCards now savedCards =
     filter (\<lambda>c. num_falsy (nextReview c) \<or>
                 (case nextReview c of None \<Rightarrow> False | Some t \<Rightarrow> t \<le> now)) savedCards"

definition addToFlashcards :: "WordData \<Rightarrow> WordData list \<Rightarrow> WordData list" where
  "addToFlashcards w savedCards =
     (if \<not> list_ex (\<lambda>c. toLowerCase (word c) = toLowerCase (word w)) savedCards
      then w # savedCards else savedCards)"


section \<open>Similarity scorer (WordDisplay component)\<close>

text \<open>
  The inner loop of \<open>editDistance\<close> for a row \<open>i > 0\<close> and a column \<open>j > 0\<close>; the state
  is the array \<open>costs\<close> and the variable \<open>lastValue\<close>.
\<close>

definition inner_step :: "string \<Rightarrow> string \<Rightarrow> nat \<Rightarrow> int list \<times> int \<Rightarrow> nat \<Rightarrow> int list \<times> int" where
  "inner_step s1 s2 i st j =
     (let costs = fst st; lastValue = snd st;
          newValue = costs ! (j - 1);
          newValue' = (if s1 ! (i - 1) \<noteq> s2 ! (j - 1)
                       then min (min newValue lastValue) (costs ! j) + 1
                       else newValue)
      in (costs[j - 1 := lastValue], newValue'))"

text \<open>
  One pass of the outer loop.  For \<open>i = 0\<close> the assignments \<open>costs[j] = j\<close> fill the fresh
  array with \<open>0 .. s2.length\<close>; for \<open>i > 0\<close> the column \<open>j = 0\<close> does nothing, the others
  run \<open>inner_step\<close>, and \<open>costs[s2.length]\<close> receives \<open>lastValue\<close>.
\<close>

definition outer_step :: "string \<Rightarrow> string \<Rightarrow> int list \<Rightarrow> nat \<Rightarrow> int list" where
  "outer_step s1 s2 costs i =
     (if i = 0 then map int [0 ..< length s2 + 1]
      else (let st = foldl (inner_step s1 s2 i) (costs, int i) [1 ..< length s2 + 1]
            in (fst st)[length s2 := snd st]))"

definition editDistance :: "string \<Rightarrow> string \<Rightarrow> int" where
  "editDistance a b =
     (let s1 = toLowerCase a; s2 = toLowerCase b
      in foldl (outer_step s1 s2) [] [0 ..< length s1 + 1] ! length s2)"

text \<open>
  JavaScript numbers are IEEE 754 doubles: the result of a division or a multiplication
  is the exact result rounded to the nearest number with a 53-bit significand, a tie
  going to the even significand.  \<open>to_double\<close> is this rounding on the rationals.  It
  leaves out overflow and subnormal numbers, which the scorer cannot reach: its quotient
  is 0 or lies between \<open>1 / longerLength\<close> and 1.
\<close>

function bit_length :: "int \<Rightarrow> int" where
  "bit_length n = (if n \<le> 0 then 0 else 1 + bit_length (n div 2))"
  by pat_completeness auto
termination
  by (relation "measure nat") auto

declare bit_length.simps [simp del]

definition pow2 :: "int \<Rightarrow> rat" where
  "pow2 e = (if 0 \<le> e then 2 ^ nat e else 1 / 2 ^ nat (- e))"

definition round_half_even :: "rat \<Rightarrow> int" where
  "round_half_even m =
     (let f = \<lfloor>m\<rfloor>; d = m - of_int f
      in if d < 1 / 2 then f else if 1 / 2 < d then f + 1
         else if even f then f else f + 1)"

definition to_double :: "rat \<Rightarrow> rat" where
  "to_double x =
     (if x = 0 then 0
      else (let ab = quotient_of \<bar>x\<bar>;
                k = bit_length (fst ab) - bit_length (snd ab);
                e = (if pow2 k \<le> \<bar>x\<bar> then k else k - 1);
                ulp = pow2 (e - 52)
            in sgn x * of_int (round_half_even (\<bar>x\<bar> / ulp)) * ulp))"

text \<open>
  \<open>Math.round\<close> of a double is exact: the nearest integer, a half going upwards.
\<close>

definition Math_round :: "rat \<Rightarrow> int" where
  "Math_round x = \<lfloor>x + 1 / 2\<rfloor>"

definition calculateSimilarity :: "string \<Rightarrow> string \<Rightarrow> int" where
  "calculateSimilarity s1 s2 =
     (let longer = (if length s1 > length s2 then s1 else s2);
          shorter = (if length s1 > length s2 then s2 else s1);
          longerLength = int (length longer)
      in if longerLength = 0 then 1
         else Math_round
                (to_double
                   (to_double (of_int (longerLength - editDistance longer shorter)
                               / of_int longerLength) * 100)))"


section \<open>Quiz generator and study session (FlashcardStudy component)\<close>

datatype QuizType = SELECT_MEANING_EN_TO_VI | SELECT_WORD_VI_TO_EN | FILL_IN_BLANK

record QuizState =
  quiz_type :: QuizType
  question :: string
  correctAnswer :: string
  options :: "string list option"
  userAnswer :: "string option"
  isCorrect :: "bool option"
  isSubmitted :: bool

text \<open>
  What \<open>generateQuiz\<close> can end with instead of a quiz state: the \<open>TypeError\<close> of reading
  a property of \<open>undefined\<close>, and \<open>UnmodelledRegExp\<close> for a card word that contains a
  regular-expression operator other than the dot (the regular expression built from it
  then means something this embedding does not describe, or fails to compile).
\<close>

datatype quiz_error = TypeError | UnmodelledRegExp

subsection \<open>The random source\<close>

text \<open>
  Every call of \<open>Math.random\<close> is replaced by a value drawn beforehand.
  \<^item> \<open>Math.floor(Math.random() * n)\<close> is some index below \<open>n\<close>; a drawn natural number \<open>d\<close>
    stands for the index \<open>d mod n\<close>.
  \<^item> \<open>xs.sort(() => 0.5 - Math.random())\<close> returns the elements of \<open>xs\<close> in some order.
    A list of drawn numbers stands for the order: \<open>sort_random\<close> places each element at
    the drawn position among the elements that follow it.  Every list of draws gives a
    rearrangement and every rearrangement comes from some draws (\<open>sort_random_mset\<close>,
    \<open>sort_random_complete\<close>).
\<close>

record random_source =
  typeDraw :: nat
  exampleDraw :: nat
  distractorDraws :: "nat list"
  optionDraws :: "nat list"

definition insert_at :: "nat \<Rightarrow> 'a \<Rightarrow> 'a list \<Rightarrow> 'a list" where
  "insert_at k x xs = take k xs @ x # drop k xs"

fun sort_random :: "nat list \<Rightarrow> 'a list \<Rightarrow> 'a list" where
  "sort_random ks [] = []"
| "sort_random [] (x # xs) = x # xs"
| "sort_random (k # ks) (x # xs) =
     (let r = sort_random ks xs in insert_at (k mod (length r + 1)) x r)"

subsection \<open>The regular expression \<open>\b<word>\b\<close> with flags \<open>gi\<close>\<close>

text \<open>
  \<open>new RegExp(`\\b${card.word}\\b`, 'gi')\<close> pastes the card word into the pattern text.
  A character of the word that is no operator matches itself, ignoring case; a dot matches
  any character except a line terminator.
\<close>

datatype atom = Lit char | AnyChar

definition regexp_operators :: "char set" where
  "regexp_operators = insert (CHR 0x5C) (set ''^$*+?()[]{}|'')"

fun compile_word :: "string \<Rightarrow> atom list option" where
  "compile_word [] = Some []"
| "compile_word (c # cs) =
     (if c \<in> regexp_operators then None
      else map_option ((#) (if c = CHR ''.'' then AnyChar else Lit c)) (compile_word cs))"

text \<open>The class \<open>\w\<close>, which decides where \<open>\b\<close> holds.\<close>

definition is_word_char :: "char \<Rightarrow> bool" where
  "is_word_char c \<longleftrightarrow>
     c \<in> set ''abcdefghijklmnopqrstuvwxyzABCDEFGHIJKLMNOPQRSTUVWXYZ0123456789_''"

definition atom_match :: "atom \<Rightarrow> char \<Rightarrow> bool" where
  "atom_match a c =
     (case a of Lit l \<Rightarrow> lower_char l = lower_char c
              | AnyChar \<Rightarrow> c \<noteq> CHR 0x0A \<and> c \<noteq> CHR 0x0D)"

fun atoms_match :: "atom list \<Rightarrow> string \<Rightarrow> bool" where
  "atoms_match [] s = True"
| "atoms_match (a # as) [] = False"
| "atoms_match (a # as) (c # cs) = (atom_match a c \<and> atoms_match as cs)"

text \<open>
  \<open>\b\<close> between the character before the current position (\<open>None\<close> at the start of the
  text) and the rest of the text: exactly one of the two neighbours is a word character.
\<close>

definition at_boundary :: "char option \<Rightarrow> string \<Rightarrow> bool" where
  "at_boundary prev s =
     ((case prev of None \<Rightarrow> False | Some p \<Rightarrow> is_word_char p) \<noteq>
      (case s of [] \<Rightarrow> False | c # _ \<Rightarrow> is_word_char c))"

definition match_here :: "atom list \<Rightarrow> char option \<Rightarrow> string \<Rightarrow> bool" where
  "match_here p prev s =
     (at_boundary prev s \<and> atoms_match p s \<and>
      at_boundary (if p = [] then prev else Some (last (take (length p) s)))
                  (drop (length p) s))"

definition blank :: string where
  "blank = ''_______''"

text \<open>
  \<open>sentence.replace(regex, '_______')\<close> with the \<open>g\<close> flag: scan from the left; a match is
  replaced and the scan resumes behind it (one character further on after an empty
  match); a character at which nothing matches is copied.
\<close>

function replace_global :: "atom list \<Rightarrow> char option \<Rightarrow> string \<Rightarrow> string" where
  "replace_global p prev s =
     (if match_here p prev s then
        (if p = [] then
           (case s of [] \<Rightarrow> blank | c # cs \<Rightarrow> blank @ c # replace_global p (Some c) cs)
         else blank @ replace_global p (Some (last (take (length p) s))) (drop (length p) s))
      else (case s of [] \<Rightarrow> [] | c # cs \<Rightarrow> c # replace_global p (Some c) cs))"
  by pat_completeness auto
termination
proof (relation "measure (\<lambda>(p, prev, s). length s)")
  fix p :: "atom list" and prev :: "char option" and s :: string
  assume "match_here p prev s" and "p \<noteq> []"
  then have "s \<noteq> []"
    by (cases p; cases s) (simp_all add: match_here_def)
  then show "((p, Some (last (take (length p) s)), drop (length p) s), (p, prev, s))
               \<in> measure (\<lambda>(p, prev, s). length s)"
    using \<open>p \<noteq> []\<close> by simp
qed simp_all


declare replace_global.simps [simp del]

text \<open>
  Following the spec's words, for comparison with \<open>replace_global\<close>: a whole-word
  occurrence of the word is a maximal run of word characters that equals it, ignoring
  case; each such run becomes the blank marker and everything else is kept.
\<close>

function spec_blank_whole_words :: "string \<Rightarrow> string \<Rightarrow> string" where
  "spec_blank_whole_words w [] = []"
| "spec_blank_whole_words w (c # cs) =
     (if is_word_char c then
        (let run = takeWhile is_word_char (c # cs)
         in (if toLowerCase run = toLowerCase w then blank else run)
            @ spec_blank_whole_words w (dropWhile is_word_char (c # cs)))
      else c # spec_blank_whole_words w cs)"
  by pat_completeness auto
termination
proof (relation "measure (\<lambda>(w, s). length s)")
  fix w :: string and c :: char and cs :: string
  assume "is_word_char c"
  have "length (dropWhile is_word_char cs) \<le> length cs"
    by (rule length_dropWhile_le)
  then show "((w, dropWhile is_word_char (c # cs)), (w, c # cs)) \<in> measure (\<lambda>(w, s). length s)"
    using \<open>is_word_char c\<close> by simp
qed simp_all

declare spec_blank_whole_words.simps(2) [simp del]

subsection \<open>generateQuiz\<close>

text \<open>Lines 56--60: the candidate types and the draw among them.\<close>

definition draw_type :: "random_source \<Rightarrow> WordData \<Rightarrow> QuizType" where
  "draw_type rng card' =
     (let types = [SELECT_MEANING_EN_TO_VI, SELECT_WORD_VI_TO_EN] @
                  (if length (examples card') > 0 then [FILL_IN_BLANK] else [])
      in types ! (typeDraw rng mod length types))"

text \<open>\<open>c.meanings[0].vietnamese\<close>: a \<open>TypeError\<close> when the card has no meaning.\<close>

definition first_vietnamese :: "WordData \<Rightarrow> quiz_error + string" where
  "first_vietnamese c = (case meanings c of [] \<Rightarrow> Inl TypeError | m # _ \<Rightarrow> Inr (vietnamese m))"

fun map_first_vietnamese :: "WordData list \<Rightarrow> quiz_error + string list" where
  "map_first_vietnamese [] = Inr []"
| "map_first_vietnamese (c # cs) =
     (case first_vietnamese c of
        Inl e \<Rightarrow> Inl e
      | Inr v \<Rightarrow> (case map_first_vietnamese cs of Inl e \<Rightarrow> Inl e | Inr vs \<Rightarrow> Inr (v # vs)))"

text \<open>\<open>allCards.filter(c => c.id !== card.id).sort(...).slice(0, 3)\<close>.\<close>

definition distractor_cards :: "random_source \<Rightarrow> WordData list \<Rightarrow> WordData \<Rightarrow> WordData list" where
  "distractor_cards rng allCards card' =
     take 3 (sort_random (distractorDraws rng)
               (filter (\<lambda>c. card_id c \<noteq> card_id card') allCards))"

text \<open>\<open>while (options.length < 4) options.push("N/A")\<close>.\<close>

definition pad_options :: "string list \<Rightarrow> string list" where
  "pad_options opts = opts @ replicate (4 - length opts) ''N/A''"

definition generateQuiz :: "random_source \<Rightarrow> WordData list \<Rightarrow> WordData \<Rightarrow> quiz_error + QuizState" where
  "generateQuiz rng allCards card' =
     (let ty = draw_type rng card';
          newState = \<lparr>quiz_type = ty, question = [], correctAnswer = [], options = None,
                      userAnswer = None, isCorrect = None, isSubmitted = False\<rparr>
      in case ty of
           FILL_IN_BLANK \<Rightarrow>
             (case examples card' of
                [] \<Rightarrow> Inl TypeError
              | _ # _ \<Rightarrow>
                 (let example = examples card' ! (exampleDraw rng mod length (examples card'))
                  in case compile_word (word card') of
                       None \<Rightarrow> Inl UnmodelledRegExp
                     | Some regex \<Rightarrow>
                         Inr (newState\<lparr>question := replace_global regex None (sentence example),
                                        correctAnswer := word card'\<rparr>)))
         | SELECT_MEANING_EN_TO_VI \<Rightarrow>
             (case first_vietnamese card' of
                Inl e \<Rightarrow> Inl e
              | Inr correct \<Rightarrow>
                 (case map_first_vietnamese (distractor_cards rng allCards card') of
                    Inl e \<Rightarrow> Inl e
                  | Inr distractors \<Rightarrow>
                      Inr (newState\<lparr>question := word card', correctAnswer := correct,
                             options := Some (sort_random (optionDraws rng)
                                                (pad_options (correct # distractors)))\<rparr>)))
         | SELECT_WORD_VI_TO_EN \<Rightarrow>
             (case first_vietnamese card' of
                Inl e \<Rightarrow> Inl e
              | Inr q \<Rightarrow>
                 (let distractors = map word (distractor_cards rng allCards card')
                  in Inr (newState\<lparr>question := q, correctAnswer := word card',
                            options := Some (sort_random (optionDraws rng)
                                               (pad_options (word card' # distractors)))\<rparr>))))"

subsection \<open>Session state, submitQuizAnswer and handleNext\<close>

datatype StudyMode = flashcard | quiz

text \<open>
  What a \<open>setTimeout\<close> callback of the component does to \<open>currentIndex\<close> once it fires.
\<close>

datatype index_update = IndexNext | IndexFirst | IndexPrev

text \<open>
  The component's state hooks, its \<open>reviewMode\<close> prop, the callbacks scheduled with
  \<open>setTimeout\<close> and not yet run, and whether \<open>onExit\<close> has been called.
\<close>

record session =
  currentIndex :: int
  isFlipped :: bool
  studyQueue :: "WordData list"
  studyMode :: StudyMode
  quizState :: "QuizState option"
  reviewMode :: bool
  timers :: "index_update list"
  exited :: bool

text \<open>
  \<open>String.prototype.trim\<close> on ASCII: tab, line feed, vertical tab, form feed, carriage
  return and space are removed from both ends.
\<close>

definition is_space :: "char \<Rightarrow> bool" where
  "is_space c \<longleftrightarrow> c \<in> set [CHR 0x09, CHR 0x0A, CHR 0x0B, CHR 0x0C, CHR 0x0D, CHR '' '']"

definition trim :: "string \<Rightarrow> string" where
  "trim s = rev (dropWhile is_space (rev (dropWhile is_space s)))"

definition submitQuizAnswer :: "string \<Rightarrow> session \<Rightarrow> session" where
  "submitQuizAnswer answer s =
     (case quizState s of
        None \<Rightarrow> s
      | Some q \<Rightarrow>
          if isSubmitted q then s
          else (let correct = (toLowerCase (trim answer) = toLowerCase (trim (correctAnswer q)))
                in s\<lparr>quizState := Some (q\<lparr>userAnswer := Some answer,
                                            isCorrect := Some correct,
                                            isSubmitted := True\<rparr>)\<rparr>))"

definition handleNext :: "session \<Rightarrow> session" where
  "handleNext s =
     (if studyMode s = quiz \<and>
         (case quizState s of None \<Rightarrow> False | Some q \<Rightarrow> \<not> isSubmitted q)
      then s
      else if currentIndex s < int (length (studyQueue s)) - 1
      then s\<lparr>isFlipped := False, timers := timers s @ [IndexNext]\<rparr>
      else if \<not> reviewMode s
      then s\<lparr>isFlipped := False, timers := timers s @ [IndexFirst]\<rparr>
      else s\<lparr>exited := True\<rparr>)"

section \<open>Sample data\<close>

definition mk_card :: "string \<Rightarrow> string \<Rightarrow> string \<Rightarrow> string list \<Rightarrow> int option \<Rightarrow> int option \<Rightarrow> WordData" where
  "mk_card i w vi sentences lvl nxt =
     \<lparr>card_id = i, word = w, phonetic = [], mnemonic = None,
      meanings = [\<lparr>partOfSpeech = ''noun'', vietnamese = vi, definition_text = []\<rparr>],
      examples = map (\<lambda>t. \<lparr>sentence = t, translation = []\<rparr>) sentences,
      synonyms = None, antonyms = None, createdAt = 0, srsLevel = lvl, nextReview = nxt\<rparr>"


definition mk_quiz :: "string \<Rightarrow> string option \<Rightarrow> bool option \<Rightarrow> bool \<Rightarrow> QuizState" where
  "mk_quiz correct ans ok submitted =
     \<lparr>quiz_type = SELECT_WORD_VI_TO_EN, question = ''meo'', correctAnswer = correct,
      options = Some [''dog'', correct, ''N/A'', ''N/A''],
      userAnswer = ans, isCorrect = ok, isSubmitted = submitted\<rparr>"

definition mk_session :: "StudyMode \<Rightarrow> QuizState option \<Rightarrow> session" where
  "mk_session m q =
     \<lparr>currentIndex = 0, isFlipped = False,
      studyQueue = [mk_card ''1'' ''cat'' ''meo'' [] None None,
                    mk_card ''2'' ''dog'' ''cho'' [] None None],
      studyMode = m, quizState = q, reviewMode = True, timers = [], exited = False\<rparr>"

section \<open>The scheduler: rating a card\<close>

lemma srs_outcome_success:
  assumes "srsLevel card' = Some L \<or> (srsLevel card' = None \<and> L = 0)" and "0 \<le> L" and "L \<le> 5"
  shows "srs_outcome now card' True
           = (min (L + 1) 5, now + [1, 3, 7, 14, 30] ! nat (min (L + 1) 5 - 1) * 86400000)"
proof -
  from assms(2,3) have "L = 0 \<or> L = 1 \<or> L = 2 \<or> L = 3 \<or> L = 4 \<or> L = 5" by arith
  with assms(1) show ?thesis
    by (auto simp: srs_outcome_def num_or_def js_index_def SRS_INTERVALS_def)
qed

text \<open>
  Claim C1.  A card handed to the rating callback at level \<open>L\<close> between 0 and 5 (an
  absent level counts as 0), rated with success at time \<open>now\<close>: the stored card with its
  id gets \<open>srsLevel = min (L + 1) 5\<close> and
  \<open>nextReview = now + table[min (L + 1) 5 - 1] * 86400000\<close> for the table
  \<open>[1, 3, 7, 14, 30]\<close>.
\<close>

theorem success_rating_schedule:
  assumes "srsLevel card' = Some L \<or> (srsLevel card' = None \<and> L = 0)" and "0 \<le> L" and "L \<le> 5"
  shows "handleSRSRating now card' True savedCards =
           map (\<lambda>c. if card_id c = card_id card'
                     then c\<lparr>srsLevel := Some (min (L + 1) 5),
                            nextReview := Some (now + [1, 3, 7, 14, 30] ! nat (min (L + 1) 5 - 1) * 86400000)\<rparr>
                     else c) savedCards"
  unfolding handleSRSRating_def srs_outcome_success [OF assms] by simp

theorem success_rating_schedule_witness:
  "handleSRSRating 1000 (mk_card ''1'' ''cat'' ''meo'' [] (Some 4) (Some 1000)) True
       [mk_card ''2'' ''dog'' ''cho'' [] None None, mk_card ''1'' ''cat'' ''meo'' [] (Some 4) (Some 1000)]
     = [mk_card ''2'' ''dog'' ''cho'' [] None None, mk_card ''1'' ''cat'' ''meo'' [] (Some 5) (Some 2592001000)]"
  using success_rating_schedule [of "mk_card ''1'' ''cat'' ''meo'' [] (Some 4) (Some 1000)" 4 1000
          "[mk_card ''2'' ''dog'' ''cho'' [] None None, mk_card ''1'' ''cat'' ''meo'' [] (Some 4) (Some 1000)]"]
  by (simp add: mk_card_def)

text \<open>
  Claim C2.  Rated with failure, whatever the level before: the stored card with the id
  gets \<open>srsLevel = 1\<close> and \<open>nextReview = now + 86400000\<close>.
\<close>

theorem failure_rating_reset:
  "handleSRSRating now card' False savedCards =
     map (\<lambda>c. if card_id c = card_id card'
               then c\<lparr>srsLevel := Some 1, nextReview := Some (now + 86400000)\<rparr>
               else c) savedCards"
  by (simp add: handleSRSRating_def srs_outcome_def)

lemma handleSRSRating_nth:
  "i < length savedCards \<Longrightarrow>
   handleSRSRating now card' success savedCards ! i =
     (if card_id (savedCards ! i) = card_id card'
      then (savedCards ! i)\<lparr>srsLevel := Some (fst (srs_outcome now card' success)),
                             nextReview := Some (snd (srs_outcome now card' success))\<rparr>
      else savedCards ! i)"
  by (simp add: handleSRSRating_def split: prod.splits)

text \<open>
  Claim C9.  Applying a rating to the store keeps its length and the order of the ids;
  a card with another id is unchanged in every field; a card with the rated id changes
  in \<open>srsLevel\<close> and \<open>nextReview\<close> only; and when the ids of the store are distinct, at most
  one position changes.
\<close>

theorem rating_frame:
  "length (handleSRSRating now card' success savedCards) = length savedCards
   \<and> map card_id (handleSRSRating now card' success savedCards) = map card_id savedCards
   \<and> (\<forall>i < length savedCards.
         (card_id (savedCards ! i) \<noteq> card_id card' \<longrightarrow>
            handleSRSRating now card' success savedCards ! i = savedCards ! i)
       \<and> (card_id (savedCards ! i) = card_id card' \<longrightarrow>
            handleSRSRating now card' success savedCards ! i =
              (savedCards ! i)\<lparr>srsLevel := Some (fst (srs_outcome now card' success)),
                                nextReview := Some (snd (srs_outcome now card' success))\<rparr>))
   \<and> (distinct (map card_id savedCards) \<longrightarrow>
        (\<forall>i < length savedCards. \<forall>j < length savedCards.
           handleSRSRating now card' success savedCards ! i \<noteq> savedCards ! i
           \<and> handleSRSRating now card' success savedCards ! j \<noteq> savedCards ! j \<longrightarrow> i = j))"
  (is "?len \<and> ?ids \<and> ?pt \<and> ?one")
proof -
  have len: ?len
    by (simp add: handleSRSRating_def split: prod.splits)
  have ids: ?ids
    by (simp add: handleSRSRating_def split: prod.splits)
  have pt: ?pt
    by (simp add: handleSRSRating_nth)
  have one: ?one
  proof (intro impI allI)
    fix i j
    assume d: "distinct (map card_id savedCards)"
      and i: "i < length savedCards" and j: "j < length savedCards"
      and ch: "handleSRSRating now card' success savedCards ! i \<noteq> savedCards ! i
               \<and> handleSRSRating now card' success savedCards ! j \<noteq> savedCards ! j"
    from ch i have "card_id (savedCards ! i) = card_id card'"
      by (auto simp: handleSRSRating_nth split: if_splits)
    moreover from ch j have "card_id (savedCards ! j) = card_id card'"
      by (auto simp: handleSRSRating_nth split: if_splits)
    ultimately have "map card_id savedCards ! i = map card_id savedCards ! j"
      using i j by simp
    moreover have "(map card_id savedCards ! i = map card_id savedCards ! j) = (i = j)"
      using d i j by (intro nth_eq_iff_index_eq) simp_all
    ultimately show "i = j" by simp
  qed
  from len ids pt one show ?thesis by blast
qed

theorem rating_frame_witness:
  "handleSRSRating 1000 (mk_card ''1'' ''cat'' ''meo'' [] (Some 2) None) True
       [mk_card ''2'' ''dog'' ''cho'' [] None None, mk_card ''1'' ''cat'' ''meo'' [] (Some 2) None] ! 0
     = mk_card ''2'' ''dog'' ''cho'' [] None None
   \<and> handleSRSRating 1000 (mk_card ''1'' ''cat'' ''meo'' [] (Some 2) None) True
       [mk_card ''2'' ''dog'' ''cho'' [] None None, mk_card ''1'' ''cat'' ''meo'' [] (Some 2) None] ! 1
     = mk_card ''1'' ''cat'' ''meo'' [] (Some 3) (Some 604801000)
   \<and> distinct (map card_id [mk_card ''2'' ''dog'' ''cho'' [] None None, mk_card ''1'' ''cat'' ''meo'' [] (Some 2) None])"
  using rating_frame [of 1000 "mk_card ''1'' ''cat'' ''meo'' [] (Some 2) None" True
          "[mk_card ''2'' ''dog'' ''cho'' [] None None, mk_card ''1'' ''cat'' ''meo'' [] (Some 2) None]"]
  by (simp add: mk_card_def srs_outcome_def num_or_def js_index_def SRS_INTERVALS_def
        All_less_Suc)


section \<open>The scheduler: due cards\<close>

text \<open>
  The test \<open>!card.nextReview\<close> holds for an absent date and for the date \<open>0\<close>; at a clock
  reading \<open>now \<ge> 0\<close> the date \<open>0\<close> also passes the test \<open>card.nextReview <= now\<close>.
\<close>

lemma getDueCards_filter:
  "getDueCards now savedCards =
     filter (\<lambda>c. nextReview c = None \<or> nextReview c = Some 0 \<or>
                 (\<exists>t. nextReview c = Some t \<and> t \<le> now)) savedCards"
proof -
  have "(num_falsy (nextReview c) \<or> (case nextReview c of None \<Rightarrow> False | Some t \<Rightarrow> t \<le> now))
          = (nextReview c = None \<or> nextReview c = Some 0 \<or> (\<exists>t. nextReview c = Some t \<and> t \<le> now))"
    for c :: WordData
    by (cases "nextReview c") (simp_all add: num_falsy_def)
  then show ?thesis
    unfolding getDueCards_def by simp
qed

text \<open>
  Claim C3.  \<open>getDueCards\<close> reads the clock itself: \<open>now\<close> is the value of \<open>Date.now()\<close>, the
  milliseconds since the epoch, hence \<open>0 \<le> now\<close>.  It returns exactly the cards of the
  store whose \<open>nextReview\<close> is absent or at most \<open>now\<close>, in the order of the store (a
  subsequence of it); the store is an argument and is not changed.
\<close>

theorem due_cards_filter:
  assumes "0 \<le> now"
  shows "getDueCards now savedCards =
           filter (\<lambda>c. nextReview c = None \<or> (\<exists>t. nextReview c = Some t \<and> t \<le> now)) savedCards
         \<and> subseq (getDueCards now savedCards) savedCards
         \<and> (\<forall>c. c \<in> set (getDueCards now savedCards) \<longleftrightarrow>
                c \<in> set savedCards \<and>
                (nextReview c = None \<or> (\<exists>t. nextReview c = Some t \<and> t \<le> now)))"
proof -
  have "(nextReview c = None \<or> nextReview c = Some 0 \<or> (\<exists>t. nextReview c = Some t \<and> t \<le> now))
          = (nextReview c = None \<or> (\<exists>t. nextReview c = Some t \<and> t \<le> now))"
    for c :: WordData
    using assms by auto
  then have eq: "getDueCards now savedCards =
      filter (\<lambda>c. nextReview c = None \<or> (\<exists>t. nextReview c = Some t \<and> t \<le> now)) savedCards"
    unfolding getDueCards_filter by simp
  have "subseq (getDueCards now savedCards) savedCards"
    unfolding getDueCards_def by (rule subseq_filter_left)
  moreover have "\<forall>c. c \<in> set (getDueCards now savedCards) \<longleftrightarrow>
      c \<in> set savedCards \<and> (nextReview c = None \<or> (\<exists>t. nextReview c = Some t \<and> t \<le> now))"
    unfolding eq by simp
  ultimately show ?thesis using eq by blast
qed

theorem due_cards_filter_witness:
  "getDueCards 1000 [mk_card ''1'' ''a'' ''x'' [] None (Some 999),
                     mk_card ''2'' ''b'' ''y'' [] None (Some 2000),
                     mk_card ''3'' ''c'' ''z'' [] None None]
     = [mk_card ''1'' ''a'' ''x'' [] None (Some 999), mk_card ''3'' ''c'' ''z'' [] None None]"
  using due_cards_filter [of 1000 "[mk_card ''1'' ''a'' ''x'' [] None (Some 999),
                     mk_card ''2'' ''b'' ''y'' [] None (Some 2000),
                     mk_card ''3'' ''c'' ''z'' [] None None]"]
  by (simp add: mk_card_def)

section \<open>The card store: adding a card\<close>

text \<open>
  Claim C10.  Adding a card whose word equals, ignoring case, the word of a stored card
  returns the store unchanged; otherwise the new card is put in front of the stored
  cards, which keep their order.  A store whose lower-cased words are pairwise distinct
  stays so.
\<close>

theorem add_card:
  "addToFlashcards w savedCards =
     (if \<exists>c \<in> set savedCards. toLowerCase (word c) = toLowerCase (word w)
      then savedCards else w # savedCards)
   \<and> (distinct (map (\<lambda>c. toLowerCase (word c)) savedCards) \<longrightarrow>
        distinct (map (\<lambda>c. toLowerCase (word c)) (addToFlashcards w savedCards)))"
  by (auto simp: addToFlashcards_def list_ex_iff)

theorem add_card_witness:
  "addToFlashcards (mk_card ''3'' ''CAT'' ''meo'' [] None None)
       [mk_card ''1'' ''Cat'' ''x'' [] None None, mk_card ''2'' ''dog'' ''y'' [] None None]
     = [mk_card ''1'' ''Cat'' ''x'' [] None None, mk_card ''2'' ''dog'' ''y'' [] None None]
   \<and> addToFlashcards (mk_card ''3'' ''cow'' ''bo'' [] None None)
       [mk_card ''1'' ''Cat'' ''x'' [] None None, mk_card ''2'' ''dog'' ''y'' [] None None]
     = [mk_card ''3'' ''cow'' ''bo'' [] None None,
        mk_card ''1'' ''Cat'' ''x'' [] None None, mk_card ''2'' ''dog'' ''y'' [] None None]
   \<and> distinct (map (\<lambda>c. toLowerCase (word c))
        (addToFlashcards (mk_card ''3'' ''cow'' ''bo'' [] None None)
           [mk_card ''1'' ''Cat'' ''x'' [] None None, mk_card ''2'' ''dog'' ''y'' [] None None]))"
  using add_card [of "mk_card ''3'' ''CAT'' ''meo'' [] None None"
          "[mk_card ''1'' ''Cat'' ''x'' [] None None, mk_card ''2'' ''dog'' ''y'' [] None None]"]
        add_card [of "mk_card ''3'' ''cow'' ''bo'' [] None None"
          "[mk_card ''1'' ''Cat'' ''x'' [] None None, mk_card ''2'' ''dog'' ''y'' [] None None]"]
  by (simp add: mk_card_def toLowerCase_def lower_char_def)

section \<open>The similarity scorer\<close>

text \<open>
  The quotient and the product are rounded as doubles before \<open>Math.round\<close>: 23 equal
  letters out of 40 give 57, where the exact 57.5 would give 58.
\<close>

lemma similarity_double_rounding:
  "Math_round (to_double (to_double (23 / 40) * 100)) = 57"
  by code_simp

text \<open>
  On other inputs the scorer answers on the scale 0 to 100.
\<close>

lemma similarity_percent_scale:
  "calculateSimilarity ''cat'' ''cat'' = 100 \<and> calculateSimilarity ''cat'' ''dog'' = 0
   \<and> calculateSimilarity ''kitten'' ''sitting'' = 57"
  by code_simp

text \<open>
  Claim C4.  For two empty strings \<open>calculateSimilarity\<close> takes the early return
  \<open>return 1.0\<close>: the result is 1, not 100.
\<close>

theorem similarity_empty_strings:
  "calculateSimilarity [] [] = 1 \<and> calculateSimilarity [] [] \<noteq> 100"
  by (simp add: calculateSimilarity_def)

section \<open>The study session\<close>

text \<open>
  Claim C7.  In quiz mode with a question that is not submitted, \<open>handleNext\<close> returns
  the session as it was: index, flip state, quiz state, pending timers and exit flag.
\<close>

theorem advance_blocked:
  "studyMode s = quiz \<Longrightarrow> quizState s = Some q \<Longrightarrow> \<not> isSubmitted q \<Longrightarrow> handleNext s = s"
  by (simp add: handleNext_def)

theorem advance_blocked_witness:
  "handleNext (mk_session quiz (Some (mk_quiz ''cat'' None None False)))
     = mk_session quiz (Some (mk_quiz ''cat'' None None False))"
  using advance_blocked [of "mk_session quiz (Some (mk_quiz ''cat'' None None False))"
                            "mk_quiz ''cat'' None None False"]
  by (simp add: mk_session_def mk_quiz_def)

text \<open>Once the question is submitted the same call goes on to the next card.\<close>

lemma advance_when_submitted:
  "handleNext (mk_session quiz (Some (mk_quiz ''cat'' (Some ''cat'') (Some True) True)))
     = (mk_session quiz (Some (mk_quiz ''cat'' (Some ''cat'') (Some True) True)))
          \<lparr>isFlipped := False, timers := [IndexNext]\<rparr>"
  by (simp add: handleNext_def mk_session_def mk_quiz_def)

text \<open>
  Claim C8.  \<open>submitQuizAnswer\<close> on a submitted question returns the session unchanged;
  on an unsubmitted one it stores the answer, sets \<open>isSubmitted\<close>, and sets \<open>isCorrect\<close> to
  whether answer and correct answer agree after \<open>trim\<close> and \<open>toLowerCase\<close>.  The cards of
  the queue are the same afterwards.
\<close>

theorem submit_answer:
  "quizState s = Some q \<Longrightarrow>
     (isSubmitted q \<longrightarrow> submitQuizAnswer answer s = s)
   \<and> (\<not> isSubmitted q \<longrightarrow>
        submitQuizAnswer answer s =
          s\<lparr>quizState := Some (q\<lparr>userAnswer := Some answer,
                                  isCorrect := Some (toLowerCase (trim answer)
                                                       = toLowerCase (trim (correctAnswer q))),
                                  isSubmitted := True\<rparr>)\<rparr>)
   \<and> studyQueue (submitQuizAnswer answer s) = studyQueue s"
  by (simp add: submitQuizAnswer_def)

theorem submit_answer_witness:
  "submitQuizAnswer ''  CAT '' (mk_session quiz (Some (mk_quiz ''cat'' None None False)))
     = mk_session quiz (Some (mk_quiz ''cat'' (Some ''  CAT '') (Some True) True))
   \<and> submitQuizAnswer ''cot'' (mk_session quiz (Some (mk_quiz ''cat'' None None False)))
     = mk_session quiz (Some (mk_quiz ''cat'' (Some ''cot'') (Some False) True))
   \<and> submitQuizAnswer ''dog''
        (mk_session quiz (Some (mk_quiz ''cat'' (Some ''  CAT '') (Some True) True)))
     = mk_session quiz (Some (mk_quiz ''cat'' (Some ''  CAT '') (Some True) True))"
  using submit_answer [of "mk_session quiz (Some (mk_quiz ''cat'' None None False))"
                          "mk_quiz ''cat'' None None False" "''  CAT ''"]
        submit_answer [of "mk_session quiz (Some (mk_quiz ''cat'' None None False))"
                          "mk_quiz ''cat'' None None False" "''cot''"]
        submit_answer [of "mk_session quiz (Some (mk_quiz ''cat'' (Some ''  CAT '') (Some True) True))"
                          "mk_quiz ''cat'' (Some ''  CAT '') (Some True) True" "''dog''"]
  by (simp add: mk_session_def mk_quiz_def trim_def is_space_def toLowerCase_def lower_char_def)


section \<open>The quiz generator: multiple-choice options\<close>

subsection \<open>The random order is a rearrangement, and any rearrangement\<close>

lemma mset_insert_at: "mset (insert_at k x xs) = add_mset x (mset xs)"
proof -
  have "mset (take k xs) + mset (drop k xs) = mset xs"
    by (metis append_take_drop_id mset_append)
  then show ?thesis
    by (simp add: insert_at_def)
qed

lemma sort_random_mset: "mset (sort_random ks xs) = mset xs"
  by (induction ks xs rule: sort_random.induct) (simp_all add: mset_insert_at Let_def)

lemma sort_random_complete:
  "mset ys = mset xs \<Longrightarrow> \<exists>ks. sort_random ks xs = ys"
proof (induction xs arbitrary: ys)
  case Nil
  then show ?case by simp
next
  case (Cons x xs)
  then have "x \<in> set ys"
    by (metis list.set_intros(1) set_mset_mset)
  then obtain as bs where ys: "ys = as @ x # bs"
    by (auto simp: in_set_conv_decomp)
  with Cons.prems have "mset (as @ bs) = mset xs" by simp
  from Cons.IH [OF this] obtain ks where ks: "sort_random ks xs = as @ bs" ..
  have "sort_random (length as # ks) (x # xs) = ys"
    by (simp add: ks ys insert_at_def)
  then show ?case ..
qed

lemma length_sort_random: "length (sort_random ks xs) = length xs"
  by (metis sort_random_mset size_mset)

lemma count_list_sort_random: "count_list (sort_random ks xs) a = count_list xs a"
  by (metis sort_random_mset count_mset)

lemma set_sort_random: "set (sort_random ks xs) = set xs"
  by (metis sort_random_mset set_mset_mset)

subsection \<open>Distractors and padding\<close>

lemma length_distractor_cards: "length (distractor_cards rng allCards card') \<le> 3"
  by (simp add: distractor_cards_def)

lemma set_distractor_cards:
  "set (distractor_cards rng allCards card') \<subseteq> {c \<in> set allCards. card_id c \<noteq> card_id card'}"
proof -
  have "set (distractor_cards rng allCards card')
          \<subseteq> set (sort_random (distractorDraws rng) (filter (\<lambda>c. card_id c \<noteq> card_id card') allCards))"
    unfolding distractor_cards_def by (rule set_take_subset)
  then show ?thesis by (simp add: set_sort_random)
qed

lemma length_pad_options: "length opts \<le> 4 \<Longrightarrow> length (pad_options opts) = 4"
  by (simp add: pad_options_def)

lemma count_list_replicate: "count_list (replicate n x) a = (if x = a then n else 0)"
  by (induction n) auto

lemma count_list_pad_options:
  "count_list (pad_options opts) a =
     count_list opts a + (if a = ''N/A'' then 4 - length opts else 0)"
  by (simp add: pad_options_def count_list_replicate)

lemma map_first_vietnamese_Inr:
  "map_first_vietnamese cs = Inr vs \<Longrightarrow> vs = map (\<lambda>c. vietnamese (hd (meanings c))) cs"
  by (induction cs arbitrary: vs)
     (auto simp: first_vietnamese_def split: sum.splits list.splits)

lemma map_first_vietnamese_total:
  "\<forall>c \<in> set cs. meanings c \<noteq> [] \<Longrightarrow> \<exists>vs. map_first_vietnamese cs = Inr vs"
  by (induction cs) (auto simp: first_vietnamese_def split: sum.splits list.splits)

lemma padded_count_one:
  assumes "length ds \<le> 3"
  shows "length (sort_random ks (pad_options (a # ds))) = 4
       \<and> mset (sort_random ks (pad_options (a # ds)))
           = mset (a # ds @ replicate (3 - length ds) ''N/A'')
       \<and> 1 \<le> count_list (sort_random ks (pad_options (a # ds))) a
       \<and> (count_list (sort_random ks (pad_options (a # ds))) a = 1 \<longleftrightarrow>
            a \<notin> set ds \<and> (length ds = 3 \<or> a \<noteq> ''N/A''))"
proof -
  have "mset (sort_random ks (pad_options (a # ds)))
          = mset (a # ds @ replicate (3 - length ds) ''N/A'')"
    by (simp add: sort_random_mset pad_options_def)
  moreover from assms have "length (sort_random ks (pad_options (a # ds))) = 4
       \<and> 1 \<le> count_list (sort_random ks (pad_options (a # ds))) a
       \<and> (count_list (sort_random ks (pad_options (a # ds))) a = 1 \<longleftrightarrow>
            a \<notin> set ds \<and> (length ds = 3 \<or> a \<noteq> ''N/A''))"
    by (auto simp: length_sort_random count_list_sort_random length_pad_options
          count_list_pad_options count_list_0_iff)
  ultimately show ?thesis by blast
qed

lemma distractor_cards_pool:
  "mset (distractor_cards rng allCards card')
     \<subseteq># mset (filter (\<lambda>c. card_id c \<noteq> card_id card') allCards)
   \<and> length (distractor_cards rng allCards card')
       = min 3 (length (filter (\<lambda>c. card_id c \<noteq> card_id card') allCards))"
proof -
  let ?pool = "filter (\<lambda>c. card_id c \<noteq> card_id card') allCards"
  let ?xs = "sort_random (distractorDraws rng) ?pool"
  have "mset (take 3 ?xs) + mset (drop 3 ?xs) = mset ?xs"
    by (metis append_take_drop_id mset_append)
  then have "mset (take 3 ?xs) \<subseteq># mset ?xs"
    by (metis mset_subset_eq_add_left)
  then have "mset (take 3 ?xs) \<subseteq># mset ?pool"
    by (simp only: sort_random_mset)
  moreover have "length (take 3 ?xs) = min 3 (length ?pool)"
    by (simp add: length_sort_random min.commute)
  ultimately show ?thesis
    unfolding distractor_cards_def by blast
qed

lemma first_vietnamese_Inr:
  "first_vietnamese c = Inr v \<Longrightarrow> meanings c \<noteq> [] \<and> v = vietnamese (hd (meanings c))"
  by (cases "meanings c") (simp_all add: first_vietnamese_def)

lemma options_from_pool:
  fixes f :: "WordData \<Rightarrow> string"
  assumes dcs: "dcs = distractor_cards rng allCards card'"
    and opts: "opts = sort_random ks (pad_options (a # map f dcs))"
  shows "length opts = 4
       \<and> mset dcs \<subseteq># mset (filter (\<lambda>c. card_id c \<noteq> card_id card') allCards)
       \<and> length dcs = min 3 (length (filter (\<lambda>c. card_id c \<noteq> card_id card') allCards))
       \<and> mset opts = mset (a # map f dcs @ replicate (3 - length dcs) ''N/A'')
       \<and> 1 \<le> count_list opts a
       \<and> (count_list opts a = 1 \<longleftrightarrow>
            a \<notin> set (map f dcs) \<and> (length dcs = 3 \<or> a \<noteq> ''N/A''))"
    and "(\<forall>c \<in> set allCards. card_id c \<noteq> card_id card' \<longrightarrow> f c \<noteq> a)
         \<and> (a \<noteq> ''N/A'' \<or> 3 \<le> length (filter (\<lambda>c. card_id c \<noteq> card_id card') allCards))
         \<Longrightarrow> count_list opts a = 1"
proof -
  let ?pool = "filter (\<lambda>c. card_id c \<noteq> card_id card') allCards"
  from distractor_cards_pool [of rng allCards card']
  have sub: "mset dcs \<subseteq># mset ?pool" and len: "length dcs = min 3 (length ?pool)"
    unfolding dcs by blast+
  from len have "length (map f dcs) \<le> 3" by simp
  from padded_count_one [OF this, of ks a]
  have pad: "length opts = 4"
      "mset opts = mset (a # map f dcs @ replicate (3 - length dcs) ''N/A'')"
      "1 \<le> count_list opts a"
      "count_list opts a = 1 \<longleftrightarrow> a \<notin> set (map f dcs) \<and> (length dcs = 3 \<or> a \<noteq> ''N/A'')"
    unfolding opts by simp_all
  with sub len show "length opts = 4
       \<and> mset dcs \<subseteq># mset ?pool
       \<and> length dcs = min 3 (length ?pool)
       \<and> mset opts = mset (a # map f dcs @ replicate (3 - length dcs) ''N/A'')
       \<and> 1 \<le> count_list opts a
       \<and> (count_list opts a = 1 \<longleftrightarrow>
            a \<notin> set (map f dcs) \<and> (length dcs = 3 \<or> a \<noteq> ''N/A''))"
    by blast
  assume cond: "(\<forall>c \<in> set allCards. card_id c \<noteq> card_id card' \<longrightarrow> f c \<noteq> a)
         \<and> (a \<noteq> ''N/A'' \<or> 3 \<le> length ?pool)"
  from set_distractor_cards [of rng allCards card'] cond
  have "a \<notin> set (map f dcs)"
    unfolding dcs by auto
  moreover from cond len have "length dcs = 3 \<or> a \<noteq> ''N/A''"
    by auto
  ultimately show "count_list opts a = 1"
    using pad(4) by blast
qed

text \<open>
  Distractors are chosen among the cards with another id, whatever their text.  With
  the cards \<open>cat\<close> and \<open>kitty\<close>, both translated \<open>meo\<close>, the options of the quiz for
  \<open>cat\<close> hold the correct answer twice.
\<close>

theorem quiz_options_counterexample:
  "generateQuiz \<lparr>typeDraw = 0, exampleDraw = 0, distractorDraws = [], optionDraws = []\<rparr>
       [mk_card ''1'' ''cat'' ''meo'' [] None None, mk_card ''2'' ''kitty'' ''meo'' [] None None]
       (mk_card ''1'' ''cat'' ''meo'' [] None None)
     = Inr \<lparr>quiz_type = SELECT_MEANING_EN_TO_VI, question = ''cat'', correctAnswer = ''meo'',
            options = Some [''meo'', ''meo'', ''N/A'', ''N/A''],
            userAnswer = None, isCorrect = None, isSubmitted = False\<rparr>
   \<and> count_list [''meo'', ''meo'', ''N/A'', ''N/A''] ''meo'' = 2"
  by (simp add: generateQuiz_def draw_type_def mk_card_def first_vietnamese_def
        distractor_cards_def pad_options_def numeral_2_eq_2)

text \<open>
  The padding text can collide with the correct answer as well: a card whose word is
  \<open>N/A\<close>, quizzed by word with no other card, gets four equal options.
\<close>

lemma quiz_options_sentinel_collision:
  "generateQuiz \<lparr>typeDraw = 1, exampleDraw = 0, distractorDraws = [], optionDraws = []\<rparr> []
       (mk_card ''1'' ''N/A'' ''khong ap dung'' [] None None)
     = Inr \<lparr>quiz_type = SELECT_WORD_VI_TO_EN, question = ''khong ap dung'',
            correctAnswer = ''N/A'', options = Some [''N/A'', ''N/A'', ''N/A'', ''N/A''],
            userAnswer = None, isCorrect = None, isSubmitted = False\<rparr>"
  by (simp add: generateQuiz_def draw_type_def mk_card_def first_vietnamese_def
        distractor_cards_def pad_options_def numeral_3_eq_3)

text \<open>
  Claim C5, amended.  When the card and every card of the pool have a meaning and the
  drawn type is one of the two multiple-choice types, \<open>generateQuiz\<close> returns a quiz.
  Every quiz it returns has the drawn type, is not submitted and has no user answer.
  Every multiple-choice quiz it returns has the card's first meaning text (or word) as
  correct answer and exactly 4 options: a rearrangement of the correct answer, the
  texts of up to three cards taken from the pool without repetition, each with another
  id than the card (three of them when the pool has that many such cards, otherwise all
  of them), and as many \<open>N/A\<close> as are missing to 4.  The correct answer is among the
  options; it is there exactly once if and only if none of the cards taken has the same
  text and, unless three cards were taken, the correct answer is not \<open>N/A\<close>.  In
  particular it is there exactly once whenever no pool card with another id has the
  same text as the correct answer and the correct answer is not \<open>N/A\<close> or the pool has
  three cards with another id.
\<close>

theorem quiz_options_integrity:
  "(meanings card' \<noteq> [] \<and> (\<forall>c \<in> set allCards. meanings c \<noteq> [])
      \<and> draw_type rng card' \<noteq> FILL_IN_BLANK
      \<longrightarrow> (\<exists>q. generateQuiz rng allCards card' = Inr q))
   \<and> (\<forall>q. generateQuiz rng allCards card' = Inr q \<longrightarrow>
         (quiz_type q = draw_type rng card' \<and> \<not> isSubmitted q \<and> userAnswer q = None)
       \<and> (quiz_type q \<noteq> FILL_IN_BLANK \<longrightarrow>
            (meanings card' \<noteq> []
             \<and> correctAnswer q = (if quiz_type q = SELECT_MEANING_EN_TO_VI
                                  then vietnamese (hd (meanings card')) else word card')
             \<and> question q = (if quiz_type q = SELECT_MEANING_EN_TO_VI
                             then word card' else vietnamese (hd (meanings card'))))
          \<and> (\<exists>opts ds.
                options q = Some opts \<and> length opts = 4
              \<and> mset ds \<subseteq># mset (filter (\<lambda>c. card_id c \<noteq> card_id card') allCards)
              \<and> length ds = min 3 (length (filter (\<lambda>c. card_id c \<noteq> card_id card') allCards))
              \<and> mset opts =
                  mset (correctAnswer q #
                        map (\<lambda>c. if quiz_type q = SELECT_MEANING_EN_TO_VI
                                  then vietnamese (hd (meanings c)) else word c) ds
                        @ replicate (3 - length ds) ''N/A'')
              \<and> 1 \<le> count_list opts (correctAnswer q)
              \<and> (count_list opts (correctAnswer q) = 1 \<longleftrightarrow>
                    correctAnswer q \<notin>
                      set (map (\<lambda>c. if quiz_type q = SELECT_MEANING_EN_TO_VI
                                     then vietnamese (hd (meanings c)) else word c) ds)
                    \<and> (length ds = 3 \<or> correctAnswer q \<noteq> ''N/A'')))
          \<and> ((\<forall>c \<in> set allCards. card_id c \<noteq> card_id card' \<longrightarrow>
                   (if quiz_type q = SELECT_MEANING_EN_TO_VI
                    then vietnamese (hd (meanings c)) else word c) \<noteq> correctAnswer q)
               \<and> (correctAnswer q \<noteq> ''N/A''
                    \<or> 3 \<le> length (filter (\<lambda>c. card_id c \<noteq> card_id card') allCards))
               \<longrightarrow> (\<exists>opts. options q = Some opts
                             \<and> count_list opts (correctAnswer q) = 1))))"
  (is "?total \<and> (\<forall>q. ?gen q \<longrightarrow> ?basic q \<and> (?mc q \<longrightarrow> ?fields q \<and> ?ex q \<and> ?once q))")
proof
  show ?total
  proof (intro impI, elim conjE)
    assume m: "meanings card' \<noteq> []" and pool: "\<forall>c \<in> set allCards. meanings c \<noteq> []"
      and ty: "draw_type rng card' \<noteq> FILL_IN_BLANK"
    from m obtain v where v: "first_vietnamese card' = Inr v"
      by (cases "meanings card'") (simp_all add: first_vietnamese_def)
    from pool set_distractor_cards [of rng allCards card']
    have "\<forall>c \<in> set (distractor_cards rng allCards card'). meanings c \<noteq> []" by blast
    from map_first_vietnamese_total [OF this]
    obtain vs where vs: "map_first_vietnamese (distractor_cards rng allCards card') = Inr vs" ..
    from ty show "\<exists>q. generateQuiz rng allCards card' = Inr q"
      by (cases "draw_type rng card'") (simp_all add: generateQuiz_def v vs)
  qed
next
  show "\<forall>q. ?gen q \<longrightarrow> ?basic q \<and> (?mc q \<longrightarrow> ?fields q \<and> ?ex q \<and> ?once q)"
  proof (intro allI impI)
    fix q
    assume gen: "?gen q"
    let ?dcs = "distractor_cards rng allCards card'"
    show "?basic q \<and> (?mc q \<longrightarrow> ?fields q \<and> ?ex q \<and> ?once q)"
    proof (cases "draw_type rng card'")
      case SELECT_MEANING_EN_TO_VI
      with gen obtain correct ds where
        fv: "first_vietnamese card' = Inr correct" and
        ds: "map_first_vietnamese ?dcs = Inr ds" and
        q: "q = \<lparr>quiz_type = SELECT_MEANING_EN_TO_VI, question = word card',
                 correctAnswer = correct,
                 options = Some (sort_random (optionDraws rng) (pad_options (correct # ds))),
                 userAnswer = None, isCorrect = None, isSubmitted = False\<rparr>"
        by (auto simp: generateQuiz_def split: sum.splits)
      from first_vietnamese_Inr [OF fv]
      have m: "meanings card' \<noteq> []" and c: "correct = vietnamese (hd (meanings card'))"
        by blast+
      from map_first_vietnamese_Inr [OF ds]
      have ds_eq: "ds = map (\<lambda>c. vietnamese (hd (meanings c))) ?dcs" .
      note core = options_from_pool [where rng = rng and allCards = allCards
          and card' = card' and ks = "optionDraws rng" and a = correct
          and f = "\<lambda>c. vietnamese (hd (meanings c))", OF refl refl]
      have "?basic q" by (simp add: q SELECT_MEANING_EN_TO_VI)
      moreover have "?fields q" by (simp add: q m c)
      moreover have "?ex q"
        by (rule exI [of _ "sort_random (optionDraws rng) (pad_options (correct # ds))"],
            rule exI [of _ ?dcs])
          (use core(1) in \<open>simp add: q ds_eq\<close>)
      moreover have "?once q"
        using core(2) by (simp add: q ds_eq)
      ultimately show ?thesis by blast
    next
      case SELECT_WORD_VI_TO_EN
      with gen obtain v where
        fv: "first_vietnamese card' = Inr v" and
        q: "q = \<lparr>quiz_type = SELECT_WORD_VI_TO_EN, question = v,
                 correctAnswer = word card',
                 options = Some (sort_random (optionDraws rng)
                                   (pad_options (word card' # map word ?dcs))),
                 userAnswer = None, isCorrect = None, isSubmitted = False\<rparr>"
        by (auto simp: generateQuiz_def split: sum.splits)
      from first_vietnamese_Inr [OF fv]
      have m: "meanings card' \<noteq> []" and v: "v = vietnamese (hd (meanings card'))"
        by blast+
      note core = options_from_pool [where rng = rng and allCards = allCards
          and card' = card' and ks = "optionDraws rng" and a = "word card'"
          and f = word, OF refl refl]
      have "?basic q" by (simp add: q SELECT_WORD_VI_TO_EN)
      moreover have "?fields q" by (simp add: q m v)
      moreover have "?ex q"
        by (rule exI [of _ "sort_random (optionDraws rng)
                              (pad_options (word card' # map word ?dcs))"],
            rule exI [of _ ?dcs])
          (use core(1) in \<open>simp add: q\<close>)
      moreover have "?once q"
        using core(2) by (simp add: q)
      ultimately show ?thesis by blast
    next
      case FILL_IN_BLANK
      with gen have "quiz_type q = FILL_IN_BLANK \<and> \<not> isSubmitted q \<and> userAnswer q = None"
        by (auto simp: generateQuiz_def Let_def split: list.splits option.splits)
      with FILL_IN_BLANK show ?thesis by simp
    qed
  qed
qed

theorem quiz_options_integrity_witness:
  "(\<exists>q. generateQuiz \<lparr>typeDraw = 0, exampleDraw = 0, distractorDraws = [1], optionDraws = [2, 0]\<rparr>
            [mk_card ''1'' ''cat'' ''meo'' [] None None, mk_card ''2'' ''dog'' ''cho'' [] None None]
            (mk_card ''1'' ''cat'' ''meo'' [] None None) = Inr q)
   \<and> generateQuiz \<lparr>typeDraw = 0, exampleDraw = 0, distractorDraws = [1], optionDraws = [2, 0]\<rparr>
            [mk_card ''1'' ''cat'' ''meo'' [] None None, mk_card ''2'' ''dog'' ''cho'' [] None None]
            (mk_card ''1'' ''cat'' ''meo'' [] None None)
       = Inr \<lparr>quiz_type = SELECT_MEANING_EN_TO_VI, question = ''cat'', correctAnswer = ''meo'',
              options = Some [''cho'', ''N/A'', ''meo'', ''N/A''],
              userAnswer = None, isCorrect = None, isSubmitted = False\<rparr>
   \<and> draw_type \<lparr>typeDraw = 0, exampleDraw = 0, distractorDraws = [1], optionDraws = [2, 0]\<rparr>
         (mk_card ''1'' ''cat'' ''meo'' [] None None) = SELECT_MEANING_EN_TO_VI
   \<and> length [''cho'', ''N/A'', ''meo'', ''N/A''] = 4
   \<and> count_list [''cho'', ''N/A'', ''meo'', ''N/A''] ''meo'' = 1"
proof -
  let ?R = "\<lparr>typeDraw = 0, exampleDraw = 0, distractorDraws = [1], optionDraws = [2, 0]\<rparr>"
  let ?A = "[mk_card ''1'' ''cat'' ''meo'' [] None None, mk_card ''2'' ''dog'' ''cho'' [] None None]"
  let ?C = "mk_card ''1'' ''cat'' ''meo'' [] None None"
  let ?Q = "\<lparr>quiz_type = SELECT_MEANING_EN_TO_VI, question = ''cat'', correctAnswer = ''meo'',
              options = Some [''cho'', ''N/A'', ''meo'', ''N/A''],
              userAnswer = None, isCorrect = None, isSubmitted = False\<rparr>"
  have hyp: "meanings ?C \<noteq> [] \<and> (\<forall>c \<in> set ?A. meanings c \<noteq> [])
             \<and> draw_type ?R ?C \<noteq> FILL_IN_BLANK"
    by (simp add: mk_card_def draw_type_def)
  have gen: "generateQuiz ?R ?A ?C = Inr ?Q"
    by (simp add: generateQuiz_def draw_type_def mk_card_def first_vietnamese_def
          distractor_cards_def pad_options_def insert_at_def numeral_2_eq_2)
  have other: "(\<forall>c \<in> set ?A. card_id c \<noteq> card_id ?C \<longrightarrow>
                  (if quiz_type ?Q = SELECT_MEANING_EN_TO_VI
                   then vietnamese (hd (meanings c)) else word c) \<noteq> correctAnswer ?Q)
               \<and> (correctAnswer ?Q \<noteq> ''N/A''
                    \<or> 3 \<le> length (filter (\<lambda>c. card_id c \<noteq> card_id ?C) ?A))"
    by (simp add: mk_card_def)
  from quiz_options_integrity [of ?C ?A ?R] hyp
  have total: "\<exists>q. generateQuiz ?R ?A ?C = Inr q" by blast
  from quiz_options_integrity [of ?C ?A ?R] gen
  have ty: "quiz_type ?Q = draw_type ?R ?C" by blast
  from quiz_options_integrity [of ?C ?A ?R] gen
  have "quiz_type ?Q \<noteq> FILL_IN_BLANK \<longrightarrow>
          (\<exists>opts ds. options ?Q = Some opts \<and> length opts = 4
              \<and> mset ds \<subseteq># mset (filter (\<lambda>c. card_id c \<noteq> card_id ?C) ?A)
              \<and> length ds = min 3 (length (filter (\<lambda>c. card_id c \<noteq> card_id ?C) ?A))
              \<and> mset opts =
                  mset (correctAnswer ?Q #
                        map (\<lambda>c. if quiz_type ?Q = SELECT_MEANING_EN_TO_VI
                                  then vietnamese (hd (meanings c)) else word c) ds
                        @ replicate (3 - length ds) ''N/A'')
              \<and> 1 \<le> count_list opts (correctAnswer ?Q)
              \<and> (count_list opts (correctAnswer ?Q) = 1 \<longleftrightarrow>
                    correctAnswer ?Q \<notin>
                      set (map (\<lambda>c. if quiz_type ?Q = SELECT_MEANING_EN_TO_VI
                                     then vietnamese (hd (meanings c)) else word c) ds)
                    \<and> (length ds = 3 \<or> correctAnswer ?Q \<noteq> ''N/A'')))
          \<and> ((\<forall>c \<in> set ?A. card_id c \<noteq> card_id ?C \<longrightarrow>
                   (if quiz_type ?Q = SELECT_MEANING_EN_TO_VI
                    then vietnamese (hd (meanings c)) else word c) \<noteq> correctAnswer ?Q)
               \<and> (correctAnswer ?Q \<noteq> ''N/A''
                    \<or> 3 \<le> length (filter (\<lambda>c. card_id c \<noteq> card_id ?C) ?A))
               \<longrightarrow> (\<exists>opts. options ?Q = Some opts
                             \<and> count_list opts (correctAnswer ?Q) = 1))"
    by blast
  with other have "(\<exists>opts. options ?Q = Some opts \<and> length opts = 4)
      \<and> (\<exists>opts. options ?Q = Some opts \<and> count_list opts (correctAnswer ?Q) = 1)"
    by auto
  then have "length [''cho'', ''N/A'', ''meo'', ''N/A''] = 4
             \<and> count_list [''cho'', ''N/A'', ''meo'', ''N/A''] ''meo'' = 1"
    by simp
  with total gen ty show ?thesis by simp
qed


section \<open>The quiz generator: fill in the blank\<close>

subsection \<open>Words made of letters, digits and underscores\<close>

lemma upper_letter_is_word_char:
  "c \<in> set ''ABCDEFGHIJKLMNOPQRSTUVWXYZ'' \<Longrightarrow> is_word_char c \<and> is_word_char (lower_char c)"
  by (auto simp: is_word_char_def lower_char_def)

lemma lower_char_other:
  "c \<notin> set ''ABCDEFGHIJKLMNOPQRSTUVWXYZ'' \<Longrightarrow> lower_char c = c"
  unfolding lower_char_def
  by (simp add: map_of_eq_None_iff [THEN iffD2] split: option.splits)

lemma is_word_char_lower: "is_word_char (lower_char c) = is_word_char c"
proof (cases "c \<in> set ''ABCDEFGHIJKLMNOPQRSTUVWXYZ''")
  case True
  from upper_letter_is_word_char [OF this] show ?thesis by blast
next
  case False
  from lower_char_other [OF this] show ?thesis by (rule arg_cong)
qed

lemma lower_eq_word_char:
  "lower_char a = lower_char b \<Longrightarrow> is_word_char a = is_word_char b"
  by (metis is_word_char_lower)

lemma atoms_match_literal:
  "atoms_match (map Lit w) s \<longleftrightarrow>
     length w \<le> length s \<and> toLowerCase (take (length w) s) = toLowerCase w"
proof (induction w arbitrary: s)
  case Nil
  show ?case by (simp add: toLowerCase_def)
next
  case (Cons a w)
  show ?case
  proof (cases s)
    case Nil
    then show ?thesis by simp
  next
    case (Cons c cs)
    show ?thesis
      unfolding Cons by (simp add: Cons.IH atom_match_def toLowerCase_def eq_commute conj_ac)
  qed
qed


lemma toLowerCase_eq_word_chars:
  "toLowerCase xs = toLowerCase w \<Longrightarrow> list_all is_word_char w \<Longrightarrow> list_all is_word_char xs"
proof (induction xs arbitrary: w)
  case Nil
  show ?case by simp
next
  case (Cons c cs)
  from Cons.prems(1) obtain x w' where w: "w = x # w'"
    by (cases w) (simp_all add: toLowerCase_def)
  with Cons.prems have "lower_char c = lower_char x" and "toLowerCase cs = toLowerCase w'"
    and "is_word_char x" and "list_all is_word_char w'"
    by (simp_all add: toLowerCase_def)
  then show ?case
    using Cons.IH [of w'] lower_eq_word_char [of c x] by simp
qed

lemma no_match_inside_word:
  assumes w: "w \<noteq> []" "list_all is_word_char w" and a: "is_word_char a"
  shows "\<not> match_here (map Lit w) (Some a) s"
proof
  assume m: "match_here (map Lit w) (Some a) s"
  from w obtain x xs where wx: "w = x # xs" and x: "is_word_char x"
    by (cases w) simp_all
  show False
  proof (cases s)
    case Nil
    with m wx show False by (simp add: match_here_def)
  next
    case (Cons c cs)
    with m a have "\<not> is_word_char c" by (simp add: match_here_def at_boundary_def)
    moreover from m Cons wx have "lower_char x = lower_char c"
      by (simp add: match_here_def atom_match_def)
    ultimately show False using x lower_eq_word_char by blast
  qed
qed


lemma skip_rest_of_word:
  assumes w: "w \<noteq> []" "list_all is_word_char w"
  shows "is_word_char a \<Longrightarrow>
         replace_global (map Lit w) (Some a) s =
           takeWhile is_word_char s @
           (case dropWhile is_word_char s of
              [] \<Rightarrow> []
            | d # ds \<Rightarrow> d # replace_global (map Lit w) (Some d) ds)"
proof (induction s arbitrary: a)
  case Nil
  from no_match_inside_word [OF w Nil, of "[]"] show ?case
    by (subst replace_global.simps) simp
next
  case (Cons c cs)
  from no_match_inside_word [OF w Cons.prems, of "c # cs"]
  have step: "replace_global (map Lit w) (Some a) (c # cs)
                = c # replace_global (map Lit w) (Some c) cs"
    by (subst replace_global.simps) simp
  show ?case
  proof (cases "is_word_char c")
    case True
    from Cons.IH [OF True] show ?thesis by (simp add: step True)
  next
    case False
    then show ?thesis by (simp add: step)
  qed
qed

lemma match_at_word_start:
  assumes w: "w \<noteq> []" "list_all is_word_char w"
    and prev: "\<not> (case prev of None \<Rightarrow> False | Some a \<Rightarrow> is_word_char a)"
    and c: "is_word_char c"
  shows "match_here (map Lit w) prev (c # cs) \<longleftrightarrow>
           toLowerCase (takeWhile is_word_char (c # cs)) = toLowerCase w"
proof
  let ?s = "c # cs" and ?n = "length w"
  assume m: "match_here (map Lit w) prev ?s"
  then have len: "?n \<le> length ?s" and eq: "toLowerCase (take ?n ?s) = toLowerCase w"
    and b: "at_boundary (Some (last (take ?n ?s))) (drop ?n ?s)"
    using w(1) by (simp_all add: match_here_def atoms_match_literal)
  from toLowerCase_eq_word_chars [OF eq w(2)]
  have all: "list_all is_word_char (take ?n ?s)" .
  from w(1) len have ne: "take ?n ?s \<noteq> []" by auto
  with all have "is_word_char (last (take ?n ?s))"
    by (simp add: list_all_iff)
  with b have after: "drop ?n ?s = [] \<or> \<not> is_word_char (hd (drop ?n ?s))"
    by (cases "drop ?n ?s") (simp_all add: at_boundary_def)
  have "takeWhile is_word_char ?s = take ?n ?s"
  proof (rule takeWhile_eq_take_P_nth)
    fix i assume "i < ?n" "i < length ?s"
    with all show "is_word_char (?s ! i)"
      by (simp add: list_all_length)
  next
    assume "?n < length ?s"
    with after show "\<not> is_word_char (?s ! ?n)"
      by (simp add: hd_drop_conv_nth)
  qed
  with eq show "toLowerCase (takeWhile is_word_char ?s) = toLowerCase w" by simp
next
  let ?s = "c # cs" and ?n = "length w"
  let ?run = "takeWhile is_word_char ?s" and ?rest = "dropWhile is_word_char ?s"
  assume eq: "toLowerCase ?run = toLowerCase w"
  then have n: "length ?run = ?n"
    unfolding toLowerCase_def by (rule map_eq_imp_length_eq)
  have run: "take ?n ?s = ?run"
    using takeWhile_eq_take [of is_word_char ?s] n by simp
  have rest: "drop ?n ?s = ?rest"
    using dropWhile_eq_drop [of is_word_char ?s] n by simp
  from n have len: "?n \<le> length ?s"
    using length_takeWhile_le [of is_word_char ?s] by simp
  have start: "at_boundary prev ?s"
    using prev c by (simp add: at_boundary_def)
  have "?run \<noteq> []" using c by simp
  then have "last ?run \<in> set ?run" by (rule last_in_set)
  then have lastw: "is_word_char (last ?run)" by (blast dest: set_takeWhileD)
  have "\<not> (case ?rest of [] \<Rightarrow> False | d # _ \<Rightarrow> is_word_char d)"
    using hd_dropWhile [of is_word_char ?s] by (cases ?rest) auto
  with lastw have stop: "at_boundary (Some (last ?run)) ?rest"
    by (simp add: at_boundary_def)
  show "match_here (map Lit w) prev ?s"
    unfolding match_here_def atoms_match_literal
    using start len eq stop w(1) by (simp add: run rest)
qed


lemma replace_global_plain_word:
  assumes w: "w \<noteq> []" "list_all is_word_char w"
  shows "\<not> (case prev of None \<Rightarrow> False | Some a \<Rightarrow> is_word_char a) \<Longrightarrow>
         replace_global (map Lit w) prev s = spec_blank_whole_words w s"
proof (induction s arbitrary: prev rule: length_induct)
  case (1 s)
  note IH = "1.IH" [rule_format] and prev = "1.prems"
  let ?p = "map Lit w"
  show ?case
  proof (cases s)
    case Nil
    from prev have "\<not> match_here ?p prev []"
      by (simp add: match_here_def at_boundary_def)
    then show ?thesis
      unfolding Nil by (subst replace_global.simps) simp
  next
    case (Cons c cs)
    show ?thesis
    proof (cases "is_word_char c")
      case False
      with prev have "\<not> match_here ?p prev (c # cs)"
        by (simp add: match_here_def at_boundary_def)
      then have "replace_global ?p prev (c # cs) = c # replace_global ?p (Some c) cs"
        by (subst replace_global.simps) simp
      moreover have "replace_global ?p (Some c) cs = spec_blank_whole_words w cs"
        using False by (intro IH) (simp_all add: Cons)
      ultimately show ?thesis
        unfolding Cons using False by (simp add: spec_blank_whole_words.simps(2))
    next
      case True
      define run where "run = takeWhile is_word_char (c # cs)"
      define rest where "rest = dropWhile is_word_char (c # cs)"
      have rest_len: "length rest \<le> length cs"
        using True length_dropWhile_le [of is_word_char cs] by (simp add: rest_def)
      have rest_hd: "\<not> is_word_char d" if "rest = d # ds" for d ds
        using hd_dropWhile [of is_word_char "c # cs"] that unfolding rest_def [symmetric] by simp
      have run_ne: "run \<noteq> []"
        using True by (simp add: run_def)
      then have "last run \<in> set run" by (rule last_in_set)
      then have lastw: "is_word_char (last run)"
        unfolding run_def by (blast dest: set_takeWhileD)
      have spec_unfold: "spec_blank_whole_words w (c # cs) =
            (if toLowerCase run = toLowerCase w then blank else run)
            @ spec_blank_whole_words w rest"
        unfolding run_def rest_def using True
        by (simp only: spec_blank_whole_words.simps(2) if_True Let_def)
      have tail: "(case rest of [] \<Rightarrow> []
                   | d # ds \<Rightarrow> d # replace_global ?p (Some d) ds)
                  = spec_blank_whole_words w rest"
      proof (cases rest)
        case Nil
        then show ?thesis by simp
      next
        case (Cons d ds)
        from rest_hd [OF Cons] have d: "\<not> is_word_char d" .
        from rest_len Cons have "length ds < length s" by (simp add: \<open>s = c # cs\<close>)
        then have "replace_global ?p (Some d) ds = spec_blank_whole_words w ds"
          using d by (intro IH) simp_all
        then show ?thesis
          by (simp add: Cons d spec_blank_whole_words.simps(2))
      qed
      have after: "replace_global ?p (Some a) rest = spec_blank_whole_words w rest"
        if "is_word_char a" for a
      proof (cases rest)
        case Nil
        with skip_rest_of_word [OF w that, of rest] show ?thesis by simp
      next
        case (Cons d ds)
        from rest_hd [OF Cons] have "\<not> is_word_char d" .
        with skip_rest_of_word [OF w that, of rest] tail show ?thesis
          by (simp add: Cons)
      qed
      have match_iff: "match_here ?p prev (c # cs) \<longleftrightarrow> toLowerCase run = toLowerCase w"
        unfolding run_def by (rule match_at_word_start [OF w prev True])
      show ?thesis
      proof (cases "match_here ?p prev (c # cs)")
        case m: True
        with match_iff have eq: "toLowerCase run = toLowerCase w" by simp
        then have n: "length run = length w"
          unfolding toLowerCase_def by (rule map_eq_imp_length_eq)
        have run: "take (length w) (c # cs) = run"
          using takeWhile_eq_take [of is_word_char "c # cs"] n unfolding run_def by simp
        have rest: "drop (length w) (c # cs) = rest"
          using dropWhile_eq_drop [of is_word_char "c # cs"] n unfolding run_def rest_def by simp
        from m w(1) have "replace_global ?p prev (c # cs)
                 = blank @ replace_global ?p (Some (last run)) rest"
          by (subst replace_global.simps)
             (simp only: run rest if_True map_is_Nil_conv if_False length_map)
        also have "\<dots> = blank @ spec_blank_whole_words w rest"
          by (simp only: after [OF lastw])
        also have "\<dots> = spec_blank_whole_words w (c # cs)"
          by (simp add: spec_unfold eq)
        finally show ?thesis unfolding Cons .
      next
        case m: False
        with match_iff have neq: "toLowerCase run \<noteq> toLowerCase w" by simp
        have split: "run = c # takeWhile is_word_char cs" "rest = dropWhile is_word_char cs"
          using True by (simp_all add: run_def rest_def)
        from m have "replace_global ?p prev (c # cs) = c # replace_global ?p (Some c) cs"
          by (subst replace_global.simps) simp
        also have "\<dots> = run @ (case rest of [] \<Rightarrow> []
                               | d # ds \<Rightarrow> d # replace_global ?p (Some d) ds)"
          using skip_rest_of_word [OF w True, of cs] by (simp add: split)
        also have "\<dots> = run @ spec_blank_whole_words w rest"
          by (simp only: tail)
        also have "\<dots> = spec_blank_whole_words w (c # cs)"
          using neq by (simp add: spec_unfold)
        finally show ?thesis unfolding Cons .
      qed
    qed
  qed
qed


lemma word_char_no_operator:
  "is_word_char c \<Longrightarrow> c \<notin> regexp_operators \<and> c \<noteq> CHR ''.''"
  by (auto simp: is_word_char_def regexp_operators_def)

lemma compile_word_plain:
  "list_all is_word_char w \<Longrightarrow> compile_word w = Some (map Lit w)"
  by (induction w) (simp_all add: word_char_no_operator)

lemma draw_type_fill_in_blank:
  assumes "draw_type rng card' = FILL_IN_BLANK"
  shows "examples card' \<noteq> []"
proof
  assume e: "examples card' = []"
  let ?i = "typeDraw rng mod Suc (Suc 0)"
  have "?i < Suc (Suc 0)" by (rule mod_less_divisor) simp
  then have "?i = 0 \<or> ?i = Suc 0" by linarith
  then have "[SELECT_MEANING_EN_TO_VI, SELECT_WORD_VI_TO_EN] ! ?i \<noteq> FILL_IN_BLANK"
    by (elim disjE) (simp_all only: nth_Cons_0 nth_Cons_Suc QuizType.distinct not_False_eq_True)
  with assms e show False by (simp add: draw_type_def)
qed

lemma fill_in_blank_plain_word:
  assumes "word card' \<noteq> []" and "list_all is_word_char (word card')"
    and "draw_type rng card' = FILL_IN_BLANK"
  shows "generateQuiz rng allCards card' =
           Inr \<lparr>quiz_type = FILL_IN_BLANK,
                question = spec_blank_whole_words (word card')
                  (sentence (examples card' ! (exampleDraw rng mod length (examples card')))),
                correctAnswer = word card', options = None,
                userAnswer = None, isCorrect = None, isSubmitted = False\<rparr>"
proof -
  from draw_type_fill_in_blank [OF assms(3)] obtain e es where "examples card' = e # es"
    by (cases "examples card'") simp_all
  moreover have "replace_global (map Lit (word card')) None s
                  = spec_blank_whole_words (word card') s" for s
    by (rule replace_global_plain_word [OF assms(1,2)]) simp
  ultimately show ?thesis
    by (simp add: generateQuiz_def assms(3) compile_word_plain [OF assms(2)])
qed

text \<open>The two sentences of the specification, for the word \<open>cat\<close>.\<close>

lemma fill_in_blank_cat_examples:
  "generateQuiz \<lparr>typeDraw = 2, exampleDraw = 0, distractorDraws = [], optionDraws = []\<rparr> []
       (mk_card ''1'' ''cat'' ''meo'' [''The cats sat on the mat'', ''The cat sat''] None None)
     = Inr \<lparr>quiz_type = FILL_IN_BLANK, question = ''The cats sat on the mat'',
            correctAnswer = ''cat'', options = None,
            userAnswer = None, isCorrect = None, isSubmitted = False\<rparr>"
  "generateQuiz \<lparr>typeDraw = 2, exampleDraw = 1, distractorDraws = [], optionDraws = []\<rparr> []
       (mk_card ''1'' ''cat'' ''meo'' [''The cats sat on the mat'', ''The cat sat''] None None)
     = Inr \<lparr>quiz_type = FILL_IN_BLANK, question = ''The _______ sat'',
            correctAnswer = ''cat'', options = None,
            userAnswer = None, isCorrect = None, isSubmitted = False\<rparr>"
  by code_simp+

subsection \<open>A word with a dot\<close>

text \<open>
  Claim C6.  The card word is pasted into the pattern as it is, so the dot of \<open>etc.\<close> is
  the wildcard of the regular expression and the closing \<open>\b\<close> asks for a word character
  next to it.  In the sentence below the question blanks \<open>etch\<close>, which is not the card
  word, and keeps the whole-word occurrence \<open>etc.\<close>; the correct answer is the card word.
\<close>

theorem fill_in_blank_unescaped_word:
  "generateQuiz \<lparr>typeDraw = 2, exampleDraw = 0, distractorDraws = [], optionDraws = []\<rparr> []
       (mk_card ''1'' ''etc.'' ''van van'' [''I etch glass, metal, etc. at home''] None None)
     = Inr \<lparr>quiz_type = FILL_IN_BLANK, question = ''I _______ glass, metal, etc. at home'',
            correctAnswer = ''etc.'', options = None,
            userAnswer = None, isCorrect = None, isSubmitted = False\<rparr>"
  by code_simp

end
